theory Spec2Isabelle
  imports Complex_Main
begin

section \<open>Values exchanged with the upstream source\<close>

text \<open>
  The functions of \<^verbatim>\<open>main.py\<close> work on the values that \<^verbatim>\<open>r.json()\<close> delivers: Python
  dictionaries, lists, strings, integers, booleans and \<^verbatim>\<open>None\<close>. A dictionary is an
  association list whose first binding of a key is the one a lookup finds. Text is a
  \<^typ>\<open>string\<close>, each character standing for the code point of its number (below 256);
  the slugs and URLs of the upstream source are ASCII. Numbers are integers; the
  upstream source delivers no fractional number in the fields read here.
\<close>

datatype json =
    JNull
  | JBool bool
  | JInt int
  | JStr string
  | JArr "json list"
  | JObj "(string \<times> json) list"

text \<open>The exceptions that the modelled code can raise, as values.\<close>

datatype error =
    AttributeError
  | TypeError
  | KeyError
  | ValueError
  | IndexError
  | OverflowError
  | ValidationError
  | RequestException
  | JSONDecodeError
  | RecursionError

text \<open>\<^verbatim>\<open>d.get(key, default)\<close>: only a dictionary has the method.\<close>

fun py_get :: "json \<Rightarrow> string \<Rightarrow> json \<Rightarrow> error + json" where
  "py_get (JObj kvs) key dflt =
     Inr (case map_of kvs key of None \<Rightarrow> dflt | Some v \<Rightarrow> v)"
| "py_get _ key dflt = Inl AttributeError"

text \<open>\<^verbatim>\<open>d[key]\<close> with a string key.\<close>

fun py_item :: "json \<Rightarrow> string \<Rightarrow> error + json" where
  "py_item (JObj kvs) key =
     (case map_of kvs key of None \<Rightarrow> Inl KeyError | Some v \<Rightarrow> Inr v)"
| "py_item _ key = Inl TypeError"

text \<open>
  \<^verbatim>\<open>for x in v\<close>: a list yields its elements, a dictionary its keys, a string its
  characters (strings of length one); nothing else is iterable.
\<close>

fun py_iter :: "json \<Rightarrow> error + json list" where
  "py_iter (JArr xs) = Inr xs"
| "py_iter (JObj kvs) = Inr (map (\<lambda>kv. JStr (fst kv)) kvs)"
| "py_iter (JStr s) = Inr (map (\<lambda>c. JStr [c]) s)"
| "py_iter _ = Inl TypeError"

text \<open>Truth value of a value, as \<^verbatim>\<open>if v\<close>, \<^verbatim>\<open>not v\<close> and \<^verbatim>\<open>v or w\<close> read it.\<close>

fun truthy :: "json \<Rightarrow> bool" where
  "truthy JNull = False"
| "truthy (JBool b) = b"
| "truthy (JInt n) = (n \<noteq> 0)"
| "truthy (JStr s) = (s \<noteq> [])"
| "truthy (JArr xs) = (xs \<noteq> [])"
| "truthy (JObj kvs) = (kvs \<noteq> [])"

definition py_or :: "json \<Rightarrow> json \<Rightarrow> json" where
  "py_or v w = (if truthy v then v else w)"

section \<open>String operations\<close>

text \<open>\<^verbatim>\<open>s.rstrip('/')\<close> for a single character.\<close>

definition py_rstrip :: "char \<Rightarrow> string \<Rightarrow> string" where
  "py_rstrip c s = rev (dropWhile (\<lambda>x. x = c) (rev s))"

text \<open>
  \<^verbatim>\<open>s.split('/')\<close> for a single-character separator: one more piece than there are
  separators, empty pieces kept.
\<close>

fun py_split :: "char \<Rightarrow> string \<Rightarrow> string list" where
  "py_split c [] = [[]]"
| "py_split c (x # xs) =
     (if x = c then [] # py_split c xs
      else (case py_split c xs of
              [] \<Rightarrow> [[x]]
            | p # ps \<Rightarrow> (x # p) # ps))"

text \<open>\<^verbatim>\<open>xs[-1]\<close>.\<close>

definition py_last :: "'a list \<Rightarrow> error + 'a" where
  "py_last xs = (case rev xs of [] \<Rightarrow> Inl IndexError | x # _ \<Rightarrow> Inr x)"

text \<open>
  \<^verbatim>\<open>int(s)\<close>: surrounding whitespace is dropped, one sign is allowed, and the rest is a
  non-empty run of decimal digits in which single underscores may stand between digits.
  Anything else is a \<^verbatim>\<open>ValueError\<close>, and so is a numeral of more than 4300 digits (the
  interpreter's limit, at its default). The whitespace that \<^verbatim>\<open>int\<close> drops is the tab, the
  line feed, the vertical tab, the form feed, the carriage return and the space, and of
  the characters above 127 the next-line character (133) and the no-break space (160);
  the separators 28 to 31 are not dropped. No character from 128 to 255 is a decimal
  digit.
\<close>

definition is_space :: "char \<Rightarrow> bool" where
  "is_space c = (of_char c \<in> {9, 10, 11, 12, 13, 32, 133, 160 :: nat})"

definition is_digit :: "char \<Rightarrow> bool" where
  "is_digit c = (48 \<le> (of_char c :: nat) \<and> (of_char c :: nat) \<le> 57)"

definition digit_val :: "char \<Rightarrow> nat" where
  "digit_val c = of_char c - 48"

definition py_strip :: "string \<Rightarrow> string" where
  "py_strip s = rev (dropWhile is_space (rev (dropWhile is_space s)))"

fun digits_value :: "nat \<Rightarrow> string \<Rightarrow> nat option" where
  "digits_value acc [] = Some acc"
| "digits_value acc [c] = (if is_digit c then Some (acc * 10 + digit_val c) else None)"
| "digits_value acc (c # d # cs) =
     (if is_digit c then digits_value (acc * 10 + digit_val c) (d # cs)
      else if c = CHR ''_'' \<and> is_digit d then digits_value acc (d # cs)
      else None)"

definition py_nat :: "string \<Rightarrow> nat option" where
  "py_nat s =
     (case s of
        [] \<Rightarrow> None
      | c # cs \<Rightarrow> if is_digit c then digits_value 0 (c # cs) else None)"

definition py_int :: "string \<Rightarrow> error + int" where
  "py_int s =
     (let t = py_strip s;
          (neg, body) =
            (case t of
               [] \<Rightarrow> (False, [])
             | c # cs \<Rightarrow>
                 if c = CHR ''-'' then (True, cs)
                 else if c = CHR ''+'' then (False, cs)
                 else (False, c # cs))
      in case py_nat body of
           None \<Rightarrow> Inl ValueError
         | Some n \<Rightarrow>
             if 4300 < length (filter is_digit body) then Inl ValueError
             else Inr (if neg then - int n else int n))"

text \<open>\<^verbatim>\<open>str(n)\<close> of an integer, as an f-string formats it.\<close>

definition digit_char :: "nat \<Rightarrow> char" where
  "digit_char d = char_of (48 + d)"

function str_nat :: "nat \<Rightarrow> string" where
  "str_nat n = (if n < 10 then [digit_char n] else str_nat (n div 10) @ [digit_char (n mod 10)])"
  by pat_completeness auto
termination
  by (relation "measure (\<lambda>n. n)") auto

definition py_str_int :: "int \<Rightarrow> string" where
  "py_str_int i = (if i < 0 then CHR ''-'' # str_nat (nat (- i)) else str_nat (nat i))"

section \<open>The schema (\<^verbatim>\<open>schemas.py\<close>)\<close>

record EvolutionStage =
  id_stage :: int
  name_stage :: string
  sprite_stage :: "string option"

text \<open>
  The constructor validates its arguments against the declared field types: \<^verbatim>\<open>id\<close> is
  always an integer where it is called, \<^verbatim>\<open>sprite\<close> always a string, and \<^verbatim>\<open>name\<close>, read
  from the upstream data, must be a string.
\<close>

definition new_EvolutionStage :: "int \<Rightarrow> json \<Rightarrow> string \<Rightarrow> error + EvolutionStage" where
  "new_EvolutionStage i name sprite =
     (case name of
        JStr s \<Rightarrow> Inr \<lparr>id_stage = i, name_stage = s, sprite_stage = Some sprite\<rparr>
      | _ \<Rightarrow> Inl ValidationError)"

section \<open>Evolution-chain traversal (\<^verbatim>\<open>build_evolution_chain\<close>)\<close>

text \<open>
  The expression \<^verbatim>\<open>int(species_url.rstrip('/').split('/')[-1])\<close>; every exception it
  raises is caught by the caller below.
\<close>

definition parse_id :: "json \<Rightarrow> error + int" where
  "parse_id species_url =
     (case species_url of
        JStr u \<Rightarrow>
          (case py_last (py_split CHR ''/'' (py_rstrip CHR ''/'' u)) of
             Inl e \<Rightarrow> Inl e
           | Inr seg \<Rightarrow> py_int seg)
      | _ \<Rightarrow> Inl AttributeError)"

definition sprite_url :: "int \<Rightarrow> string" where
  "sprite_url poke_id =
     ''https://raw.githubusercontent.com/PokeAPI/sprites/master/sprites/pokemon/''
       @ py_str_int poke_id @ ''.png''"

text \<open>A measure of a value, for the termination of the traversal.\<close>

fun jsize :: "json \<Rightarrow> nat" where
  "jsize JNull = 1"
| "jsize (JBool b) = 1"
| "jsize (JInt n) = 1"
| "jsize (JStr s) = max 1 (length s)"
| "jsize (JArr xs) = 1 + sum_list (map jsize xs)"
| "jsize (JObj kvs) = 1 + sum_list (map (\<lambda>kv. max 1 (length (fst kv)) + jsize (snd kv)) kvs)"

lemma jsize_pos: "0 < jsize v"
  by (cases v) auto

lemma jsize_map_of:
  "map_of kvs k = Some v \<Longrightarrow> jsize v < jsize (JObj kvs)"
  by (induction kvs) (auto split: if_splits)

lemma jsize_chars: "sum_list (map jsize (map (\<lambda>c. JStr [c]) s)) = length s"
  by (induction s) auto

lemma jsize_keys:
  "sum_list (map jsize (map (\<lambda>kv. JStr (fst kv)) kvs))
     \<le> sum_list (map (\<lambda>kv. max 1 (length (fst kv)) + jsize (snd kv)) kvs)"
  by (induction kvs) auto

lemma jsize_py_iter:
  assumes "py_iter v = Inr xs"
  shows "sum_list (map jsize xs) \<le> jsize v"
proof (cases v)
  case (JStr s)
  with assms have "xs = map (\<lambda>c. JStr [c]) s" by simp
  with JStr show ?thesis by (simp only: jsize_chars jsize.simps max.cobounded2)
next
  case (JObj kvs)
  with assms have "xs = map (\<lambda>kv. JStr (fst kv)) kvs" by simp
  with JObj jsize_keys [of kvs] show ?thesis by (simp only: jsize.simps le_SucI plus_1_eq_Suc)
qed (use assms in auto)

lemma jsize_children:
  assumes "py_get node key (JArr []) = Inr ev" and "py_iter ev = Inr children"
  shows "sum_list (map jsize children) < jsize node"
proof (cases node)
  case (JObj kvs)
  show ?thesis
  proof (cases "map_of kvs key")
    case None
    with JObj assms have "children = []" by auto
    with JObj show ?thesis by simp
  next
    case (Some v)
    with JObj assms have "ev = v" by simp
    with Some JObj have "jsize ev < jsize node" by (simp add: jsize_map_of del: jsize.simps)
    with jsize_py_iter [OF assms(2)] show ?thesis by simp
  qed
qed (use assms in auto)

text \<open>
  The nested function \<^verbatim>\<open>traverse\<close>. The list \<^verbatim>\<open>stages\<close> it appends to is passed in and
  returned; \<^verbatim>\<open>traverse_children\<close> is the loop over \<^verbatim>\<open>node.get("evolves_to", [])\<close>. An
  exception leaves the loop and the function, as in the source.

  The function calls itself once for every level of the chain, and the interpreter
  bounds the depth of its call stack. \<open>room\<close> is the number of calls that may still be
  nested where \<^verbatim>\<open>traverse\<close> is called: the call takes one of them, and a call for which
  there is no room raises \<^verbatim>\<open>RecursionError\<close>. The constructor of the schema class is the
  one other call of the function body that nests calls; \<open>stage_frames\<close> is the number it
  needs. The methods of the built-in types nest none.
\<close>

function traverse ::
    "nat \<Rightarrow> nat \<Rightarrow> json \<Rightarrow> EvolutionStage list \<Rightarrow> error + EvolutionStage list"
  and traverse_children ::
    "nat \<Rightarrow> nat \<Rightarrow> json list \<Rightarrow> EvolutionStage list \<Rightarrow> error + EvolutionStage list"
where
  "traverse stage_frames room node stages =
     (if room = 0 then Inl RecursionError
      else
     (case py_get node ''species'' (JObj []) of
        Inl e \<Rightarrow> Inl e
      | Inr species \<Rightarrow>
     (case py_get species ''name'' JNull of
        Inl e \<Rightarrow> Inl e
      | Inr name \<Rightarrow>
     if \<not> truthy name then Inr stages
     else
     (case py_get species ''url'' (JStr []) of
        Inl e \<Rightarrow> Inl e
      | Inr species_url \<Rightarrow>
     (let poke_id = (case parse_id species_url of Inl e \<Rightarrow> 0 | Inr i \<Rightarrow> i) in
     if room - 1 < stage_frames then Inl RecursionError
     else
     (case new_EvolutionStage poke_id name (sprite_url poke_id) of
        Inl e \<Rightarrow> Inl e
      | Inr stage \<Rightarrow>
     (case py_get node ''evolves_to'' (JArr []) of
        Inl e \<Rightarrow> Inl e
      | Inr evolves_to \<Rightarrow>
     (case py_iter evolves_to of
        Inl e \<Rightarrow> Inl e
      | Inr children \<Rightarrow>
          traverse_children stage_frames (room - 1) children (stages @ [stage])))))))))"
| "traverse_children stage_frames room [] stages = Inr stages"
| "traverse_children stage_frames room (child # rest) stages =
     (case traverse stage_frames room child stages of
        Inl e \<Rightarrow> Inl e
      | Inr stages' \<Rightarrow> traverse_children stage_frames room rest stages')"
  by pat_completeness auto
termination
proof (relation "measure (\<lambda>a. case a of
          Inl (stage_frames, room, node, stages) \<Rightarrow> 2 * jsize node
        | Inr (stage_frames, room, children, stages) \<Rightarrow> 2 * sum_list (map jsize children) + 1)")
  show "wf (measure (\<lambda>a. case a of
          Inl (stage_frames, room, node, stages) \<Rightarrow> 2 * jsize node
        | Inr (stage_frames, room, children, stages) \<Rightarrow> 2 * sum_list (map jsize children) + 1))"
    by simp
next
  fix stage_frames room :: nat and node :: json and stages :: "EvolutionStage list"
    and evolves_to children stage
  assume "py_get node ''evolves_to'' (JArr []) = Inr evolves_to"
    and "py_iter evolves_to = Inr children"
  then have "sum_list (map jsize children) < jsize node"
    by (rule jsize_children)
  then show "(Inr (stage_frames, room - 1, children, stages @ [stage]),
        Inl (stage_frames, room, node, stages))
      \<in> measure (\<lambda>a. case a of
          Inl (stage_frames, room, node, stages) \<Rightarrow> 2 * jsize node
        | Inr (stage_frames, room, children, stages) \<Rightarrow> 2 * sum_list (map jsize children) + 1)"
    by simp
next
  fix stage_frames room :: nat and child :: json and rest :: "json list"
    and stages :: "EvolutionStage list"
  show "(Inl (stage_frames, room, child, stages), Inr (stage_frames, room, child # rest, stages))
      \<in> measure (\<lambda>a. case a of
          Inl (stage_frames, room, node, stages) \<Rightarrow> 2 * jsize node
        | Inr (stage_frames, room, children, stages) \<Rightarrow> 2 * sum_list (map jsize children) + 1)"
    by simp
next
  fix stage_frames room :: nat and child :: json and rest :: "json list"
    and stages stages' :: "EvolutionStage list"
  have "0 < jsize child" by (rule jsize_pos)
  then show "(Inr (stage_frames, room, rest, stages'),
        Inr (stage_frames, room, child # rest, stages))
      \<in> measure (\<lambda>a. case a of
          Inl (stage_frames, room, node, stages) \<Rightarrow> 2 * jsize node
        | Inr (stage_frames, room, children, stages) \<Rightarrow> 2 * sum_list (map jsize children) + 1)"
    by simp
qed

text \<open>The loop \<^verbatim>\<open>for s in stages\<close> with its \<^verbatim>\<open>seen\<close> set and \<^verbatim>\<open>deduped\<close> list.\<close>

fun dedup_loop :: "EvolutionStage list \<Rightarrow> int set \<Rightarrow> EvolutionStage list \<Rightarrow> EvolutionStage list" where
  "dedup_loop [] seen deduped = deduped"
| "dedup_loop (s # stages) seen deduped =
     (if id_stage s \<notin> seen \<and> id_stage s \<noteq> 0
      then dedup_loop stages (insert (id_stage s) seen) (deduped @ [s])
      else dedup_loop stages seen deduped)"

text \<open>
  \<^verbatim>\<open>build_evolution_chain\<close>; \<open>room\<close> is the number of calls that may still be nested in
  its body.
\<close>

definition build_evolution_chain :: "nat \<Rightarrow> nat \<Rightarrow> json \<Rightarrow> error + EvolutionStage list" where
  "build_evolution_chain stage_frames room chain_node =
     (case traverse stage_frames room chain_node [] of
        Inl e \<Rightarrow> Inl e
      | Inr stages \<Rightarrow> Inr (dedup_loop stages {} []))"

section \<open>Floating-point division (\<^verbatim>\<open>raw.get("height", 0) / 10.0\<close>)\<close>

text \<open>
  A Python float is an IEEE 754 binary64 number. A finite one is denoted here by the
  rational number it stands for; \<open>binary64\<close> rounds a rational to the nearest such
  number, ties to the even significand (53 bits, least exponent \<open>-1022\<close>). It does not
  bound the exponent from above: the callers below check for overflow.
\<close>

type_synonym pyfloat = rat

definition pow2 :: "int \<Rightarrow> rat" where
  "pow2 e = (if 0 \<le> e then 2 ^ nat e else 1 / 2 ^ nat (- e))"

function bit_length :: "nat \<Rightarrow> nat" where
  "bit_length n = (if n = 0 then 0 else Suc (bit_length (n div 2)))"
  by pat_completeness auto
termination
  by (relation "measure (\<lambda>n. n)") auto

text \<open>The exponent \<open>e\<close> with \<open>2 ^ e \<le> q < 2 ^ (e + 1)\<close>, for a positive \<open>q\<close>.\<close>

definition floor_log2 :: "rat \<Rightarrow> int" where
  "floor_log2 q =
     (let (a, b) = quotient_of q;
          d = int (bit_length (nat a)) - int (bit_length (nat b))
      in if pow2 d \<le> q then d else d - 1)"

definition round_half_even :: "rat \<Rightarrow> int" where
  "round_half_even q =
     (let f = \<lfloor>q\<rfloor>; r = q - of_int f
      in if r < 1 / 2 then f
         else if 1 / 2 < r then f + 1
         else if even f then f else f + 1)"

definition binary64 :: "rat \<Rightarrow> pyfloat" where
  "binary64 q =
     (if q = 0 then 0
      else
        (let a = \<bar>q\<bar>;
             ulp = pow2 (max (floor_log2 a) (- 1022) - 52)
         in sgn q * of_int (round_half_even (a / ulp)) * ulp))"

text \<open>
  The conversion of an integer operand to a float: it raises \<^verbatim>\<open>OverflowError\<close> when the
  rounded value is beyond the largest float.
\<close>

definition float_of_int :: "int \<Rightarrow> error + pyfloat" where
  "float_of_int n =
     (let x = binary64 (of_int n)
      in if pow2 1024 \<le> \<bar>x\<bar> then Inl OverflowError else Inr x)"

text \<open>
  \<^verbatim>\<open>v / 10.0\<close>: an integer (or a boolean, which is an integer in Python) is converted and
  divided, the quotient rounded; any other value is a \<^verbatim>\<open>TypeError\<close>. The quotient of a
  finite float by ten cannot overflow.
\<close>

definition py_div_10 :: "json \<Rightarrow> error + pyfloat" where
  "py_div_10 v =
     (case v of
        JInt n \<Rightarrow>
          (case float_of_int n of Inl e \<Rightarrow> Inl e | Inr x \<Rightarrow> Inr (binary64 (x / 10)))
      | JBool b \<Rightarrow> Inr (binary64 ((if b then 1 else 0) / 10))
      | _ \<Rightarrow> Inl TypeError)"

section \<open>Title case (\<^verbatim>\<open>str.title()\<close>)\<close>

text \<open>
  On ASCII text the cased characters are the letters. \<^verbatim>\<open>title\<close> upper-cases a letter
  that does not follow a letter and lower-cases a letter that does; every other
  character is kept. This is the model of \<^verbatim>\<open>title\<close> on ASCII text only (it keeps a
  character above 127, of which the interpreter changes the case when it is a letter),
  and the statements about names are made for ASCII slugs.
\<close>

definition is_upper :: "char \<Rightarrow> bool" where
  "is_upper c = (65 \<le> (of_char c :: nat) \<and> (of_char c :: nat) \<le> 90)"

definition is_lower :: "char \<Rightarrow> bool" where
  "is_lower c = (97 \<le> (of_char c :: nat) \<and> (of_char c :: nat) \<le> 122)"

definition is_cased :: "char \<Rightarrow> bool" where
  "is_cased c = (is_upper c \<or> is_lower c)"

definition to_upper :: "char \<Rightarrow> char" where
  "to_upper c = (if is_lower c then char_of ((of_char c :: nat) - 32) else c)"

definition to_lower :: "char \<Rightarrow> char" where
  "to_lower c = (if is_upper c then char_of ((of_char c :: nat) + 32) else c)"

fun title_from :: "bool \<Rightarrow> string \<Rightarrow> string" where
  "title_from previous_is_cased [] = []"
| "title_from previous_is_cased (c # cs) =
     (if previous_is_cased then to_lower c else to_upper c) # title_from (is_cased c) cs"

definition py_title :: "string \<Rightarrow> string" where
  "py_title s = title_from False s"

text \<open>\<^verbatim>\<open>v.title()\<close> on a value: only a string has the method.\<close>

definition title_of :: "json \<Rightarrow> error + string" where
  "title_of v = (case v of JStr s \<Rightarrow> Inr (py_title s) | _ \<Rightarrow> Inl AttributeError)"

section \<open>The rest of the schema\<close>

record Stats =
  hp :: int
  attack :: int
  defense :: int
  special_attack :: int
  special_defense :: int
  speed :: int

record Pokemon =
  id_pokemon :: int
  name_pokemon :: string
  types :: "string list"
  height :: pyfloat
  weight :: pyfloat
  stats :: Stats
  sprite_pokemon :: "string option"
  spriteHD :: "string option"
  evolution :: "EvolutionStage list"

text \<open>
  The constructors validate the values read from the upstream data against the declared
  field types: an \<^verbatim>\<open>int\<close> field takes an integer, a \<^verbatim>\<open>str\<close> field a string. A value of
  another type is rejected here; where the validation library would convert such a
  value instead (a numeral in a string, say), the record is outside this model, and
  the statements below are about the records whose values have the declared types.
\<close>

definition as_int :: "json \<Rightarrow> error + int" where
  "as_int v = (case v of JInt n \<Rightarrow> Inr n | _ \<Rightarrow> Inl ValidationError)"

definition as_str :: "json \<Rightarrow> error + string" where
  "as_str v = (case v of JStr s \<Rightarrow> Inr s | _ \<Rightarrow> Inl ValidationError)"

text \<open>Sequencing of steps that may raise.\<close>

definition and_then :: "error + 'a \<Rightarrow> ('a \<Rightarrow> error + 'b) \<Rightarrow> error + 'b" where
  "and_then r f = (case r of Inl e \<Rightarrow> Inl e | Inr x \<Rightarrow> f x)"

fun all_of :: "('a \<Rightarrow> error + 'b) \<Rightarrow> 'a list \<Rightarrow> error + 'b list" where
  "all_of f [] = Inr []"
| "all_of f (x # xs) =
     and_then (f x) (\<lambda>y. and_then (all_of f xs) (\<lambda>ys. Inr (y # ys)))"

definition new_Stats :: "json \<Rightarrow> json \<Rightarrow> json \<Rightarrow> json \<Rightarrow> json \<Rightarrow> json \<Rightarrow> error + Stats" where
  "new_Stats h a d sa sd sp =
     and_then (as_int h) (\<lambda>h'.
     and_then (as_int a) (\<lambda>a'.
     and_then (as_int d) (\<lambda>d'.
     and_then (as_int sa) (\<lambda>sa'.
     and_then (as_int sd) (\<lambda>sd'.
     and_then (as_int sp) (\<lambda>sp'.
       Inr \<lparr>hp = h', attack = a', defense = d', special_attack = sa',
            special_defense = sd', speed = sp'\<rparr>))))))"

text \<open>
  \<^verbatim>\<open>Pokemon(id=pid, ..., sprite=f"...{pid}.png", ...)\<close>. The two f-strings format any
  \<^verbatim>\<open>pid\<close> without raising, and the constructor rejects a \<^verbatim>\<open>pid\<close> that is not an
  integer, so the formatted text is observable for an integer only.
\<close>

definition sprite_hd_url :: "int \<Rightarrow> string" where
  "sprite_hd_url poke_id =
     ''https://raw.githubusercontent.com/PokeAPI/sprites/master/sprites/pokemon/other/official-artwork/''
       @ py_str_int poke_id @ ''.png''"

definition new_Pokemon ::
  "json \<Rightarrow> string \<Rightarrow> json list \<Rightarrow> pyfloat \<Rightarrow> pyfloat \<Rightarrow> Stats \<Rightarrow> EvolutionStage list
     \<Rightarrow> error + Pokemon" where
  "new_Pokemon pid name ts h w st evo =
     and_then (as_int pid) (\<lambda>i.
     and_then (all_of as_str ts) (\<lambda>ts'.
       Inr \<lparr>id_pokemon = i, name_pokemon = name, types = ts', height = h, weight = w,
            stats = st, sprite_pokemon = Some (sprite_url i),
            spriteHD = Some (sprite_hd_url i), evolution = evo\<rparr>))"

section \<open>The upstream source\<close>

text \<open>
  \<^verbatim>\<open>requests.get\<close> either raises (no connection, time-out, a URL it cannot use) or
  delivers a response: a status code and a body, which \<^verbatim>\<open>r.json()\<close> parses or rejects.
  The upstream source is a parameter of the model: its answer to the species lookup for
  a \<^verbatim>\<open>pid\<close>, and its answer to the lookup of an evolution-chain reference.
\<close>

datatype http_result =
    Failed
  | Response int "json option"

record upstream =
  species_response :: "json \<Rightarrow> http_result"
  chain_response :: "json \<Rightarrow> http_result"

text \<open>The common body of \<^verbatim>\<open>fetch_species\<close> and \<^verbatim>\<open>fetch_evolution_chain\<close>.\<close>

definition json_or_none :: "http_result \<Rightarrow> error + json" where
  "json_or_none r =
     (case r of
        Failed \<Rightarrow> Inl RequestException
      | Response status_code body \<Rightarrow>
          if status_code \<noteq> 200 then Inr JNull
          else (case body of None \<Rightarrow> Inl JSONDecodeError | Some j \<Rightarrow> Inr j))"

definition fetch_species :: "upstream \<Rightarrow> json \<Rightarrow> error + json" where
  "fetch_species up poke_id = json_or_none (species_response up poke_id)"

definition fetch_evolution_chain :: "upstream \<Rightarrow> json \<Rightarrow> error + json" where
  "fetch_evolution_chain up url = json_or_none (chain_response up url)"

section \<open>Normalization (\<^verbatim>\<open>normalize_pokemon\<close>)\<close>

text \<open>The comprehension \<^verbatim>\<open>[t["type"]["name"] for t in raw.get("types", [])]\<close>.\<close>

definition read_types :: "json \<Rightarrow> error + json list" where
  "read_types raw =
     and_then (py_get raw ''types'' (JArr [])) (\<lambda>src.
     and_then (py_iter src) (\<lambda>ts.
       all_of (\<lambda>t. and_then (py_item t ''type'') (\<lambda>ty. py_item ty ''name'')) ts))"

text \<open>
  The dictionary comprehension of \<^verbatim>\<open>stats_map\<close>: the key is evaluated, then the value,
  then the pair is stored, which needs a hashable key; a later entry replaces an
  earlier one with the same key. The newest binding stands first.
\<close>

fun hashable :: "json \<Rightarrow> bool" where
  "hashable (JArr xs) = False"
| "hashable (JObj kvs) = False"
| "hashable _ = True"

fun stats_map_of :: "json list \<Rightarrow> (json \<times> json) list \<Rightarrow> error + (json \<times> json) list" where
  "stats_map_of [] m = Inr m"
| "stats_map_of (s # ss) m =
     and_then (py_item s ''stat'') (\<lambda>st.
     and_then (py_item st ''name'') (\<lambda>k.
     and_then (py_item s ''base_stat'') (\<lambda>v.
       if hashable k then stats_map_of ss ((k, v) # m) else Inl TypeError)))"

text \<open>\<^verbatim>\<open>stats_map.get(key, 0)\<close>.\<close>

definition stat_get :: "(json \<times> json) list \<Rightarrow> string \<Rightarrow> json" where
  "stat_get m key = (case map_of m (JStr key) of None \<Rightarrow> JInt 0 | Some v \<Rightarrow> v)"

definition read_stats :: "json \<Rightarrow> error + Stats" where
  "read_stats raw =
     and_then (py_get raw ''stats'' (JArr [])) (\<lambda>src.
     and_then (py_iter src) (\<lambda>ss.
     and_then (stats_map_of ss []) (\<lambda>stats_map.
       new_Stats (stat_get stats_map ''hp'') (stat_get stats_map ''attack'')
         (stat_get stats_map ''defense'') (stat_get stats_map ''special-attack'')
         (stat_get stats_map ''special-defense'') (stat_get stats_map ''speed''))))"

text \<open>
  Lines 113 to 119: the species lookup, the chain lookup and the traversal. The calls
  other than the traversal are nested to a fixed depth, for which the interpreter is
  taken to have room; \<open>room\<close> is the room in the body of \<^verbatim>\<open>build_evolution_chain\<close>.
\<close>

definition read_evolution ::
    "nat \<Rightarrow> nat \<Rightarrow> upstream \<Rightarrow> json \<Rightarrow> error + EvolutionStage list" where
  "read_evolution stage_frames room up pid =
     and_then (fetch_species up pid) (\<lambda>fetched.
     let species = py_or fetched (JObj []) in
     and_then (py_get species ''evolution_chain'' JNull) (\<lambda>ec.
     and_then (py_get (py_or ec (JObj [])) ''url'' JNull) (\<lambda>evo_chain_url.
       if truthy evo_chain_url
       then and_then (fetch_evolution_chain up evo_chain_url) (\<lambda>evo.
              if truthy evo
              then and_then (py_get evo ''chain'' (JObj []))
                     (build_evolution_chain stage_frames room)
              else Inr [])
       else Inr [])))"

definition normalize_pokemon :: "nat \<Rightarrow> nat \<Rightarrow> upstream \<Rightarrow> json \<Rightarrow> error + Pokemon" where
  "normalize_pokemon stage_frames room up raw =
     and_then (read_types raw) (\<lambda>ts.
     and_then (read_stats raw) (\<lambda>st.
     and_then (py_get raw ''id'' JNull) (\<lambda>pid.
     and_then (read_evolution stage_frames room up pid) (\<lambda>evo.
     and_then (py_get raw ''name'' (JStr [])) (\<lambda>nm.
     and_then (title_of nm) (\<lambda>name.
     and_then (py_get raw ''height'' (JInt 0)) (\<lambda>hv.
     and_then (py_div_10 hv) (\<lambda>h.
     and_then (py_get raw ''weight'' (JInt 0)) (\<lambda>wv.
     and_then (py_div_10 wv) (\<lambda>w.
       new_Pokemon pid name ts h w st evo))))))))))"

section \<open>Specification-side notions and example inputs\<close>

text \<open>The stage that line 87 appends for a name and a species URL.\<close>

definition emitted_stage :: "string \<Rightarrow> json \<Rightarrow> EvolutionStage" where
  "emitted_stage nm url =
     (let poke_id = (case parse_id url of Inl e \<Rightarrow> 0 | Inr i \<Rightarrow> i)
      in \<lparr>id_stage = poke_id, name_stage = nm, sprite_stage = Some (sprite_url poke_id)\<rparr>)"

text \<open>
  Position \<open>i\<close> of the traversal's output holds the first stage with its id, and the id
  is not 0 (nor one of the ids in \<open>seen\<close>).
\<close>

definition first_seen :: "int set \<Rightarrow> EvolutionStage list \<Rightarrow> nat \<Rightarrow> bool" where
  "first_seen seen stages i \<longleftrightarrow>
     id_stage (stages ! i) \<noteq> 0 \<and> id_stage (stages ! i) \<notin> seen \<union> id_stage ` set (take i stages)"

text \<open>
  A node without a resolvable species name: a dictionary whose \<^verbatim>\<open>species\<close> is absent, or
  is a dictionary whose \<^verbatim>\<open>name\<close> is absent or falsy.
\<close>

definition nameless :: "json \<Rightarrow> bool" where
  "nameless node =
     (case node of
        JObj kvs \<Rightarrow>
          (case map_of kvs ''species'' of
             None \<Rightarrow> True
           | Some (JObj sp) \<Rightarrow> (case map_of sp ''name'' of None \<Rightarrow> True | Some v \<Rightarrow> \<not> truthy v)
           | Some _ \<Rightarrow> False)
      | _ \<Rightarrow> False)"

text \<open>A chain node as the upstream source writes it.\<close>

definition species_ref :: "string \<Rightarrow> string \<Rightarrow> json" where
  "species_ref nm url = JObj [(''name'', JStr nm), (''url'', JStr url)]"

definition chain_node :: "json \<Rightarrow> json list \<Rightarrow> json" where
  "chain_node species children = JObj [(''species'', species), (''evolves_to'', JArr children)]"

text \<open>
  The specification's example: a root with id 1 whose children have the ids 2 and 3,
  the first of them with a child of id 4; the same by its parts, and the stages of its
  traversal.
\<close>

definition example_chain :: json where
  "example_chain =
     chain_node (species_ref ''a'' ''https://pokeapi.co/api/v2/pokemon-species/1/'')
       [chain_node (species_ref ''b'' ''https://pokeapi.co/api/v2/pokemon-species/2/'')
          [chain_node (species_ref ''d'' ''https://pokeapi.co/api/v2/pokemon-species/4/'') []],
        chain_node (species_ref ''c'' ''https://pokeapi.co/api/v2/pokemon-species/3/'') []]"

definition example_species :: json where
  "example_species = species_ref ''a'' ''https://pokeapi.co/api/v2/pokemon-species/1/''"

definition example_children :: "json list" where
  "example_children =
     [chain_node (species_ref ''b'' ''https://pokeapi.co/api/v2/pokemon-species/2/'')
        [chain_node (species_ref ''d'' ''https://pokeapi.co/api/v2/pokemon-species/4/'') []],
      chain_node (species_ref ''c'' ''https://pokeapi.co/api/v2/pokemon-species/3/'') []]"

definition example_stages :: "EvolutionStage list" where
  "example_stages =
     [\<lparr>id_stage = 1, name_stage = ''a'', sprite_stage = Some (sprite_url 1)\<rparr>,
      \<lparr>id_stage = 2, name_stage = ''b'', sprite_stage = Some (sprite_url 2)\<rparr>,
      \<lparr>id_stage = 4, name_stage = ''d'', sprite_stage = Some (sprite_url 4)\<rparr>,
      \<lparr>id_stage = 3, name_stage = ''c'', sprite_stage = Some (sprite_url 3)\<rparr>]"

text \<open>
  A chain in which the id 2 occurs twice and one species reference has no number, and
  what \<^verbatim>\<open>build_evolution_chain\<close> returns for it.
\<close>

definition repeating_chain :: json where
  "repeating_chain =
     chain_node (species_ref ''a'' ''https://pokeapi.co/api/v2/pokemon-species/2/'')
       [chain_node (species_ref ''b'' ''https://pokeapi.co/api/v2/pokemon-species/'') [],
        chain_node (species_ref ''c'' ''https://pokeapi.co/api/v2/pokemon-species/2/'')
          [chain_node (species_ref ''d'' ''https://pokeapi.co/api/v2/pokemon-species/5/'') []]]"

definition repeating_out :: "EvolutionStage list" where
  "repeating_out =
     [\<lparr>id_stage = 2, name_stage = ''a'', sprite_stage = Some (sprite_url 2)\<rparr>,
      \<lparr>id_stage = 5, name_stage = ''d'', sprite_stage = Some (sprite_url 5)\<rparr>]"

text \<open>
  A chain whose root (id 1) has one child without a species name, which in turn has a
  child with the id 3; and that grandchild alone.
\<close>

definition grandchild :: json where
  "grandchild = chain_node (species_ref ''c'' ''https://pokeapi.co/api/v2/pokemon-species/3/'') []"

definition nameless_node :: json where
  "nameless_node = chain_node (JObj []) [grandchild]"

definition nameless_chain :: json where
  "nameless_chain =
     chain_node (species_ref ''a'' ''https://pokeapi.co/api/v2/pokemon-species/1/'') [nameless_node]"







text \<open>
  The chains that the traversal reads to the end, with the room there is. There must
  be room for the call. A node without a resolvable species name is then read,
  whatever lies below it. Any other node must have a dictionary as \<^verbatim>\<open>species\<close> with a
  non-empty text as \<^verbatim>\<open>name\<close>, there must be room for the constructor, and \<^verbatim>\<open>evolves_to\<close>
  must be absent or iterable, everything that it yields being read in turn with the
  room that is left.
\<close>

inductive readable :: "nat \<Rightarrow> nat \<Rightarrow> json \<Rightarrow> bool" where
  pruned: "nameless node \<Longrightarrow> readable stage_frames (Suc room) node"
| visited: "py_get node ''species'' (JObj []) = Inr species \<Longrightarrow>
     py_get species ''name'' JNull = Inr (JStr nm) \<Longrightarrow> nm \<noteq> [] \<Longrightarrow>
     stage_frames \<le> room \<Longrightarrow>
     py_get node ''evolves_to'' (JArr []) = Inr evolves_to \<Longrightarrow>
     py_iter evolves_to = Inr children \<Longrightarrow>
     (\<forall>child \<in> set children. readable stage_frames room child) \<Longrightarrow>
     readable stage_frames (Suc room) node"

text \<open>
  Chains that are not read to the end: one whose \<^verbatim>\<open>evolves_to\<close> is \<^verbatim>\<open>null\<close>, and one with
  an entry of \<^verbatim>\<open>evolves_to\<close> that is no dictionary.
\<close>

definition childless_chain :: json where
  "childless_chain =
     JObj [(''species'', species_ref ''a'' ''https://pokeapi.co/api/v2/pokemon-species/1/''),
           (''evolves_to'', JNull)]"

definition misshapen_chain :: json where
  "misshapen_chain =
     chain_node (species_ref ''a'' ''https://pokeapi.co/api/v2/pokemon-species/1/'')
       [chain_node (species_ref ''b'' ''https://pokeapi.co/api/v2/pokemon-species/2/'') [],
        JStr ''https://pokeapi.co/api/v2/pokemon-species/3/'']"

text \<open>
  Two upstream sources: one that answers every secondary lookup with status 404, and
  one that cannot be reached.
\<close>

definition not_found_upstream :: upstream where
  "not_found_upstream =
     \<lparr>species_response = (\<lambda>poke_id. Response 404 None),
      chain_response = (\<lambda>url. Response 404 None)\<rparr>"


text \<open>Raw records: one with every field read here, and one with an id and a name only.\<close>

definition stat_entry_of :: "string \<Rightarrow> int \<Rightarrow> json" where
  "stat_entry_of nm v =
     JObj [(''base_stat'', JInt v), (''effort'', JInt 0), (''stat'', JObj [(''name'', JStr nm)])]"

definition mr_mime_raw :: json where
  "mr_mime_raw =
     JObj [(''id'', JInt 122), (''name'', JStr ''mr-mime''),
           (''height'', JInt 7), (''weight'', JInt 545),
           (''types'', JArr [JObj [(''slot'', JInt 1), (''type'', JObj [(''name'', JStr ''psychic'')])]]),
           (''stats'', JArr [stat_entry_of ''hp'' 40, stat_entry_of ''attack'' 45,
                             stat_entry_of ''accuracy'' 3, stat_entry_of ''defense'' 65])]"

definition bare_fields :: "(string \<times> json) list" where
  "bare_fields = [(''id'', JInt 1), (''name'', JStr ''bulbasaur'')]"

text \<open>
  The specification's reading of the name: the first character of every word is
  upper-cased, the words being what whitespace separates, and every other character is
  kept. (Whitespace as \<^verbatim>\<open>str.split\<close> understands it.)
\<close>

definition is_ascii :: "char \<Rightarrow> bool" where
  "is_ascii c = ((of_char c :: nat) < 128)"

definition is_whitespace :: "char \<Rightarrow> bool" where
  "is_whitespace c = (of_char c \<in> {9, 10, 11, 12, 13, 28, 29, 30, 31, 32, 133, 160 :: nat})"

fun spec_title_from :: "bool \<Rightarrow> string \<Rightarrow> string" where
  "spec_title_from in_word [] = []"
| "spec_title_from in_word (c # cs) =
     (if in_word then c else to_upper c) # spec_title_from (\<not> is_whitespace c) cs"

definition spec_title :: "string \<Rightarrow> string" where
  "spec_title s = spec_title_from False s"

text \<open>
  The key and the value that the comprehension of \<^verbatim>\<open>stats_map\<close> takes from one entry of
  the source list, and the pairs it takes from the list of a raw record, in the order
  of the list.
\<close>

definition stat_entry :: "json \<Rightarrow> error + (json \<times> json)" where
  "stat_entry s =
     and_then (py_item s ''stat'') (\<lambda>st.
     and_then (py_item st ''name'') (\<lambda>k.
     and_then (py_item s ''base_stat'') (\<lambda>v.
       if hashable k then Inr (k, v) else Inl TypeError)))"

definition stat_entries :: "json \<Rightarrow> error + (json \<times> json) list" where
  "stat_entries raw =
     and_then (py_get raw ''stats'' (JArr [])) (\<lambda>src.
     and_then (py_iter src) (all_of stat_entry))"

text \<open>
  The specification's reading of a field of \<^verbatim>\<open>Stats\<close>: the value listed under the
  field's name (the last one, when the name is listed more than once), and 0 when the
  name is not listed. The six names that are recognized.
\<close>

definition spec_stat :: "(json \<times> json) list \<Rightarrow> string \<Rightarrow> json" where
  "spec_stat es nm =
     (case filter (\<lambda>e. fst e = JStr nm) es of
        [] \<Rightarrow> JInt 0
      | e # r \<Rightarrow> snd (last (e # r)))"

definition recognized :: "json \<Rightarrow> bool" where
  "recognized k \<longleftrightarrow>
     k \<in> set (map JStr [''hp'', ''attack'', ''defense'', ''special-attack'',
                         ''special-defense'', ''speed''])"





section \<open>The traversal: auxiliary facts\<close>

lemma traverse_nameless:
  assumes "py_get node ''species'' (JObj []) = Inr species"
    and "py_get species ''name'' JNull = Inr name"
    and "\<not> truthy name"
  shows "traverse stage_frames (Suc room) node stages = Inr stages"
  using assms by simp

lemma traverse_named:
  assumes "py_get node ''species'' (JObj []) = Inr species"
    and "py_get species ''name'' JNull = Inr (JStr nm)"
    and "nm \<noteq> []"
    and "py_get species ''url'' (JStr []) = Inr url"
    and "py_get node ''evolves_to'' (JArr []) = Inr evolves_to"
    and "py_iter evolves_to = Inr children"
  shows "traverse stage_frames (Suc room) node stages =
     (if stage_frames \<le> room
      then traverse_children stage_frames room children (stages @ [emitted_stage nm url])
      else Inl RecursionError)"
  using assms by (simp add: new_EvolutionStage_def emitted_stage_def Let_def not_less)

lemma traverse_no_room: "traverse stage_frames 0 node stages = Inl RecursionError"
  by simp

declare traverse.simps [simp del]

lemma traverse_prefix:
  "traverse stage_frames room node (acc @ stages) =
     (case traverse stage_frames room node stages of
        Inl e \<Rightarrow> Inl e | Inr out \<Rightarrow> Inr (acc @ out))"
  "traverse_children stage_frames room children (acc @ stages) =
     (case traverse_children stage_frames room children stages of
        Inl e \<Rightarrow> Inl e | Inr out \<Rightarrow> Inr (acc @ out))"
proof (induction stage_frames room node stages and stage_frames room children stages
    arbitrary: acc and acc rule: traverse_traverse_children.induct)
  case (1 stage_frames room node stages)
  show ?case
    by (subst (1 2) traverse.simps)
       (use "1.IH" in \<open>auto split: sum.splits simp: Let_def simp flip: append_assoc\<close>)
next
  case (2 stage_frames room stages)
  show ?case by simp
next
  case (3 stage_frames room child rest stages)
  show ?case
    using "3.IH" by (auto split: sum.splits)
qed

lemma traverse_acc:
  "traverse stage_frames room node acc =
     (case traverse stage_frames room node [] of Inl e \<Rightarrow> Inl e | Inr out \<Rightarrow> Inr (acc @ out))"
  using traverse_prefix(1) [of stage_frames room node acc "[]"] by simp

lemma traverse_children_acc:
  "traverse_children stage_frames room children acc =
     (case traverse_children stage_frames room children [] of
        Inl e \<Rightarrow> Inl e | Inr out \<Rightarrow> Inr (acc @ out))"
  using traverse_prefix(2) [of stage_frames room children acc "[]"] by simp

lemma traverse_children_concat:
  "traverse_children stage_frames room children [] = Inr out \<longleftrightarrow>
     (\<exists>outs. list_all2 (\<lambda>child r. traverse stage_frames room child [] = Inr r) children outs
        \<and> out = concat outs)"
proof (induction children arbitrary: out)
  case Nil
  show ?case by auto
next
  case (Cons child rest)
  show ?case
  proof
    assume run: "traverse_children stage_frames room (child # rest) [] = Inr out"
    then obtain r where r: "traverse stage_frames room child [] = Inr r"
      by (auto split: sum.splits)
    with run have "traverse_children stage_frames room rest r = Inr out" by simp
    then obtain out' where out': "traverse_children stage_frames room rest [] = Inr out'"
      and out: "out = r @ out'"
      by (subst (asm) traverse_children_acc) (auto split: sum.splits)
    from out' Cons.IH obtain outs
      where "list_all2 (\<lambda>child r. traverse stage_frames room child [] = Inr r) rest outs"
        and "out' = concat outs"
      by blast
    with r out have "list_all2 (\<lambda>child r. traverse stage_frames room child [] = Inr r)
          (child # rest) (r # outs) \<and> out = concat (r # outs)"
      by simp
    then show "\<exists>outs. list_all2 (\<lambda>child r. traverse stage_frames room child [] = Inr r)
          (child # rest) outs \<and> out = concat outs"
      by blast
  next
    assume "\<exists>outs. list_all2 (\<lambda>child r. traverse stage_frames room child [] = Inr r)
          (child # rest) outs \<and> out = concat outs"
    then obtain r outs where r: "traverse stage_frames room child [] = Inr r"
      and rest: "list_all2 (\<lambda>child r. traverse stage_frames room child [] = Inr r) rest outs"
      and out: "out = r @ concat outs"
      by (auto simp: list_all2_Cons1)
    from rest Cons.IH have "traverse_children stage_frames room rest [] = Inr (concat outs)"
      by blast
    then have "traverse_children stage_frames room rest r = Inr (r @ concat outs)"
      by (subst traverse_children_acc) simp
    with r out show "traverse_children stage_frames room (child # rest) [] = Inr out" by simp
  qed
qed

lemma dedup_loop_invariant:
  assumes "distinct (map id_stage deduped)" and "id_stage ` set deduped \<subseteq> seen"
    and "0 \<notin> id_stage ` set deduped"
  shows "distinct (map id_stage (dedup_loop stages seen deduped))
    \<and> 0 \<notin> id_stage ` set (dedup_loop stages seen deduped)"
  using assms
proof (induction stages arbitrary: seen deduped)
  case Nil
  then show ?case by simp
next
  case (Cons s stages)
  show ?case
  proof (cases "id_stage s \<notin> seen \<and> id_stage s \<noteq> 0")
    case True
    with Cons.prems have "distinct (map id_stage (deduped @ [s]))"
      and "id_stage ` set (deduped @ [s]) \<subseteq> insert (id_stage s) seen"
      and "0 \<notin> id_stage ` set (deduped @ [s])"
      by auto
    from Cons.IH [OF this] True show ?thesis by simp
  next
    case False
    with Cons.IH [OF Cons.prems] show ?thesis by auto
  qed
qed

lemma dedup_loop_positions:
  "dedup_loop stages seen deduped =
     deduped @ map (\<lambda>i. stages ! i) (filter (first_seen seen stages) [0..<length stages])"
proof (induction stages arbitrary: seen deduped)
  case Nil
  show ?case by simp
next
  case (Cons s stages)
  have upt: "[0..<length (s # stages)] = 0 # map Suc [0..<length stages]"
    by (simp add: upt_conv_Cons map_Suc_upt del: upt_Suc)
  have shift: "first_seen seen (s # stages) (Suc i) = first_seen (insert (id_stage s) seen) stages i" for i
    by (auto simp: first_seen_def)
  have same: "first_seen (insert (id_stage s) seen) stages i = first_seen seen stages i"
    if "\<not> (id_stage s \<notin> seen \<and> id_stage s \<noteq> 0)" for i
    using that by (auto simp: first_seen_def)
  have zero: "first_seen seen (s # stages) 0 \<longleftrightarrow> id_stage s \<notin> seen \<and> id_stage s \<noteq> 0"
    by (auto simp: first_seen_def)
  show ?case
  proof (cases "id_stage s \<notin> seen \<and> id_stage s \<noteq> 0")
    case True
    then have z: "first_seen seen (s # stages) 0 = True" using zero by simp
    have step: "dedup_loop (s # stages) seen deduped
        = dedup_loop stages (insert (id_stage s) seen) (deduped @ [s])"
      using True by simp
    show ?thesis
      unfolding upt step by (simp add: Cons.IH z shift filter_map comp_def)
  next
    case False
    then have z: "first_seen seen (s # stages) 0 = False" using zero by simp
    have step: "dedup_loop (s # stages) seen deduped = dedup_loop stages seen deduped"
      using False by auto
    show ?thesis
      unfolding upt step by (simp add: Cons.IH z shift same [OF False] filter_map comp_def)
  qed
qed

lemma nameless_reads:
  assumes "nameless node"
  obtains species name where "py_get node ''species'' (JObj []) = Inr species"
    and "py_get species ''name'' JNull = Inr name" and "\<not> truthy name"
proof -
  from assms obtain kvs where node: "node = JObj kvs"
    by (cases node) (simp_all add: nameless_def)
  obtain sp where sp: "py_get node ''species'' (JObj []) = Inr (JObj sp)"
    and falsy: "case map_of sp ''name'' of None \<Rightarrow> True | Some v \<Rightarrow> \<not> truthy v"
  proof (cases "map_of kvs ''species''")
    case None
    with that [of "[]"] node show ?thesis by simp
  next
    case (Some v)
    with assms that node show ?thesis
      by (cases v) (simp_all add: nameless_def)
  qed
  show ?thesis
  proof (cases "map_of sp ''name''")
    case None
    with that [OF sp, of JNull] show ?thesis by simp
  next
    case (Some v)
    with that [OF sp, of v] falsy show ?thesis by simp
  qed
qed

lemma reads_nameless:
  assumes "py_get node ''species'' (JObj []) = Inr species"
    and "py_get species ''name'' JNull = Inr name" and "\<not> truthy name"
  shows "nameless node"
proof -
  from assms(1) obtain kvs where node: "node = JObj kvs"
    by (cases node) simp_all
  from assms(2) obtain sp where species: "species = JObj sp"
    by (cases species) simp_all
  show ?thesis
  proof (cases "map_of kvs ''species''")
    case None
    with node show ?thesis by (simp add: nameless_def)
  next
    case (Some v)
    with assms(1) node species have "v = JObj sp" by simp
    with Some node assms(2,3) species show ?thesis
      by (simp add: nameless_def split: option.splits)
  qed
qed

text \<open>How a traversal that returns went.\<close>

lemma traverse_InrE:
  assumes "traverse stage_frames room node stages = Inr out"
  obtains (pruned) "0 < room" and "nameless node" and "out = stages"
  | (visited) species nm url evolves_to children where "0 < room"
      and "py_get node ''species'' (JObj []) = Inr species"
      and "py_get species ''name'' JNull = Inr (JStr nm)"
      and "nm \<noteq> []"
      and "py_get species ''url'' (JStr []) = Inr url"
      and "py_get node ''evolves_to'' (JArr []) = Inr evolves_to"
      and "py_iter evolves_to = Inr children"
      and "stage_frames \<le> room - 1"
      and "traverse_children stage_frames (room - 1) children (stages @ [emitted_stage nm url])
             = Inr out"
proof -
  note run = assms [unfolded traverse.simps [of stage_frames room node stages]]
  from run have room: "0 < room"
    by (simp split: if_splits)
  from run room obtain species where s: "py_get node ''species'' (JObj []) = Inr species"
    by (cases "py_get node ''species'' (JObj [])") simp_all
  from run room s obtain name where n: "py_get species ''name'' JNull = Inr name"
    by (cases "py_get species ''name'' JNull") simp_all
  show thesis
  proof (cases "truthy name")
    case False
    with run room s n have "out = stages" by simp
    moreover from s n False have "nameless node" by (rule reads_nameless)
    ultimately show thesis using room pruned by blast
  next
    case True
    with run room s n obtain url where u: "py_get species ''url'' (JStr []) = Inr url"
      by (cases "py_get species ''url'' (JStr [])") simp_all
    from run room s n True u have frames: "stage_frames \<le> room - 1"
      by (simp add: Let_def split: if_splits)
    with run room s n True u obtain stage
      where st: "new_EvolutionStage (case parse_id url of Inl e \<Rightarrow> 0 | Inr i \<Rightarrow> i) name
          (sprite_url (case parse_id url of Inl e \<Rightarrow> 0 | Inr i \<Rightarrow> i)) = Inr stage"
      by (cases "new_EvolutionStage (case parse_id url of Inl e \<Rightarrow> 0 | Inr i \<Rightarrow> i) name
          (sprite_url (case parse_id url of Inl e \<Rightarrow> 0 | Inr i \<Rightarrow> i))")
         (simp_all add: Let_def)
    then obtain nm where name: "name = JStr nm" and stage: "stage = emitted_stage nm url"
      by (cases name) (auto simp: new_EvolutionStage_def emitted_stage_def Let_def)
    from True name have nm: "nm \<noteq> []" by simp
    from run room s n True u frames st obtain evolves_to
      where e: "py_get node ''evolves_to'' (JArr []) = Inr evolves_to"
      by (cases "py_get node ''evolves_to'' (JArr [])") (simp_all add: Let_def)
    from run room s n True u frames st e obtain children
      where c: "py_iter evolves_to = Inr children"
      by (cases "py_iter evolves_to") (simp_all add: Let_def)
    from run room s n True u frames st e c
    have "traverse_children stage_frames (room - 1) children (stages @ [emitted_stage nm url])
        = Inr out"
      by (simp add: Let_def stage)
    with room s n [unfolded name] nm u e c frames show thesis
      by (rule visited)
  qed
qed

lemma child_smaller:
  assumes "py_get node ''evolves_to'' (JArr []) = Inr evolves_to"
    and "py_iter evolves_to = Inr children" and "child \<in> set children"
  shows "jsize child < jsize node"
proof -
  from assms(3) have "jsize child \<le> sum_list (map jsize children)"
    by (simp add: member_le_sum_list)
  with jsize_children [OF assms(1,2)] show ?thesis by simp
qed

lemma traverse_children_each:
  assumes "traverse_children stage_frames room children stages = Inr out"
    and "child \<in> set children"
  shows "\<exists>stages' out'. traverse stage_frames room child stages' = Inr out'"
  using assms
proof (induction children arbitrary: stages)
  case Nil
  then show ?case by simp
next
  case (Cons c rest)
  from Cons.prems(1) obtain r where r: "traverse stage_frames room c stages = Inr r"
    and rest: "traverse_children stage_frames room rest r = Inr out"
    by (auto split: sum.splits)
  show ?case
  proof (cases "child = c")
    case True
    with r show ?thesis by blast
  next
    case False
    with Cons.prems(2) have "child \<in> set rest" by simp
    with Cons.IH rest show ?thesis by blast
  qed
qed

lemma traverse_children_transfer:
  assumes "\<And>child stages out. child \<in> set children
      \<Longrightarrow> traverse stage_frames room child stages = Inr out
      \<Longrightarrow> traverse stage_frames' room' child stages = Inr out"
    and "traverse_children stage_frames room children stages = Inr out"
  shows "traverse_children stage_frames' room' children stages = Inr out"
  using assms
proof (induction children arbitrary: stages)
  case Nil
  then show ?case by simp
next
  case (Cons c rest)
  from Cons.prems(2) obtain r where r: "traverse stage_frames room c stages = Inr r"
    and rest: "traverse_children stage_frames room rest r = Inr out"
    by (auto split: sum.splits)
  from r have "traverse stage_frames' room' c stages = Inr r"
    by (rule Cons.prems(1) [rotated]) simp
  moreover from rest have "traverse_children stage_frames' room' rest r = Inr out"
    by (rule Cons.IH [rotated]) (rule Cons.prems(1), simp_all)
  ultimately show ?case by simp
qed

text \<open>
  More room does no harm: a traversal that returns with some room returns the same
  with more, also when the constructor needs more calls, as long as the room grows by
  as much.
\<close>

lemma traverse_more_room:
  assumes "traverse stage_frames room node stages = Inr out"
    and "room \<le> room'" and "stage_frames' + room \<le> room' + stage_frames"
  shows "traverse stage_frames' room' node stages = Inr out"
  using assms
proof (induction "jsize node" arbitrary: node room room' stages out rule: less_induct)
  case less
  from less.prems(1) show ?case
  proof (cases rule: traverse_InrE)
    case pruned
    from pruned(1) less.prems(2) obtain k where k: "room' = Suc k"
      by (cases room') simp_all
    from pruned(2) have "traverse stage_frames' (Suc k) node stages = Inr stages"
      by (rule nameless_reads) (rule traverse_nameless)
    with k pruned(3) show ?thesis by simp
  next
    case (visited species nm url evolves_to children)
    from visited(1) less.prems(2) obtain k where k: "room' = Suc k"
      by (cases room') simp_all
    from visited(1,8) less.prems(2,3) k have frames: "stage_frames' \<le> k" by simp
    have "traverse_children stage_frames' k children (stages @ [emitted_stage nm url]) = Inr out"
    proof (rule traverse_children_transfer [OF _ visited(9)])
      fix child stages' out'
      assume child: "child \<in> set children"
        and run: "traverse stage_frames (room - 1) child stages' = Inr out'"
      from visited(6,7) child have "jsize child < jsize node" by (rule child_smaller)
      then show "traverse stage_frames' k child stages' = Inr out'"
        using run
      proof (rule less.hyps)
        from less.prems(2) k show "room - 1 \<le> k" by simp
        from visited(1) less.prems(3) k show "stage_frames' + (room - 1) \<le> k + stage_frames"
          by simp
      qed
    qed
    with traverse_named [OF visited(2-7), of stage_frames' k stages] frames k
    show ?thesis by simp
  qed
qed

subsection \<open>The last segment of a URL\<close>












subsection \<open>Numerals\<close>







subsection \<open>Chains that the traversal reads to the end\<close>

lemma traverse_children_returns:
  "(\<forall>child \<in> set children. \<exists>out. traverse stage_frames room child [] = Inr out)
     \<Longrightarrow> \<exists>out. traverse_children stage_frames room children acc = Inr out"
proof (induction children arbitrary: acc)
  case Nil
  show ?case by simp
next
  case (Cons child rest)
  then obtain r where "traverse stage_frames room child [] = Inr r" by auto
  then have "traverse stage_frames room child acc = Inr (acc @ r)"
    by (subst traverse_acc) simp
  moreover from Cons obtain out where "traverse_children stage_frames room rest (acc @ r) = Inr out"
    by fastforce
  ultimately show ?case by simp
qed

lemma readable_returns:
  "readable stage_frames room node \<Longrightarrow> \<exists>out. traverse stage_frames room node [] = Inr out"
proof (induction rule: readable.induct)
  case (pruned node stage_frames room)
  then have "traverse stage_frames (Suc room) node [] = Inr []"
    by (rule nameless_reads) (rule traverse_nameless)
  then show ?case by blast
next
  case (visited node species nm stage_frames room evolves_to children)
  from visited(7) have "\<forall>child \<in> set children. \<exists>out. traverse stage_frames room child [] = Inr out"
    by blast
  then obtain out
    where "traverse_children stage_frames room children ([] @ [emitted_stage nm (case py_get species ''url'' (JStr []) of Inl e \<Rightarrow> JNull | Inr u \<Rightarrow> u)]) = Inr out"
    using traverse_children_returns by blast
  moreover from visited(2) obtain url where "py_get species ''url'' (JStr []) = Inr url"
    by (cases species) simp_all
  ultimately show ?case
    using traverse_named [OF visited(1,2,3) _ visited(5,6), of url stage_frames room "[]"] visited(4)
    by simp
qed

lemma returns_readable:
  assumes "traverse stage_frames room node stages = Inr out"
  shows "readable stage_frames room node"
  using assms
proof (induction "jsize node" arbitrary: node room stages out rule: less_induct)
  case less
  from less.prems show ?case
  proof (cases rule: traverse_InrE)
    case pruned
    from pruned(1) obtain k where "room = Suc k" by (cases room) simp_all
    with pruned(2) show ?thesis by (simp add: readable.pruned)
  next
    case (visited species nm url evolves_to children)
    from visited(1) obtain k where k: "room = Suc k" by (cases room) simp_all
    have "\<forall>child \<in> set children. readable stage_frames k child"
    proof
      fix child
      assume child: "child \<in> set children"
      with visited(9) obtain stages' out'
        where "traverse stage_frames (room - 1) child stages' = Inr out'"
        using traverse_children_each by blast
      moreover from visited(6,7) child have "jsize child < jsize node" by (rule child_smaller)
      ultimately have "readable stage_frames (room - 1) child" by (rule less.hyps [rotated])
      with k show "readable stage_frames k child" by simp
    qed
    moreover from visited(8) k have "stage_frames \<le> k" by simp
    ultimately have "readable stage_frames (Suc k) node"
      using visited(2,3,4,6,7) by (intro readable.visited)
    with k show ?thesis by simp
  qed
qed

section \<open>Normalization: auxiliary facts\<close>

lemma and_then_Inr: "and_then r f = Inr y \<longleftrightarrow> (\<exists>x. r = Inr x \<and> f x = Inr y)"
  by (cases r) (simp_all add: and_then_def)

lemma new_Pokemon_fields:
  assumes "new_Pokemon pid name ts h w st evo = Inr p"
  shows "name_pokemon p = name \<and> height p = h \<and> weight p = w \<and> stats p = st
    \<and> evolution p = evo"
  using assms by (auto simp: new_Pokemon_def and_then_Inr)


lemma normalize_pokemon_Inr:
  assumes "normalize_pokemon stage_frames room up raw = Inr p"
  obtains ts pid nm hv wv where "read_types raw = Inr ts"
    and "read_stats raw = Inr (stats p)"
    and "py_get raw ''id'' JNull = Inr pid"
    and "read_evolution stage_frames room up pid = Inr (evolution p)"
    and "py_get raw ''name'' (JStr []) = Inr nm"
    and "title_of nm = Inr (name_pokemon p)"
    and "py_get raw ''height'' (JInt 0) = Inr hv"
    and "py_div_10 hv = Inr (height p)"
    and "py_get raw ''weight'' (JInt 0) = Inr wv"
    and "py_div_10 wv = Inr (weight p)"
    and "new_Pokemon pid (name_pokemon p) ts (height p) (weight p) (stats p) (evolution p) = Inr p"
proof -
  from assms obtain ts st pid evo nm name hv h wv w
    where parts: "read_types raw = Inr ts" "read_stats raw = Inr st"
      "py_get raw ''id'' JNull = Inr pid" "read_evolution stage_frames room up pid = Inr evo"
      "py_get raw ''name'' (JStr []) = Inr nm" "title_of nm = Inr name"
      "py_get raw ''height'' (JInt 0) = Inr hv" "py_div_10 hv = Inr h"
      "py_get raw ''weight'' (JInt 0) = Inr wv" "py_div_10 wv = Inr w"
    and new: "new_Pokemon pid name ts h w st evo = Inr p"
    unfolding normalize_pokemon_def and_then_Inr by (elim exE conjE)
  from new_Pokemon_fields [OF new] have "name = name_pokemon p" "h = height p" "w = weight p"
    "st = stats p" "evo = evolution p"
    by simp_all
  with parts new that show ?thesis by simp
qed

lemma py_div_10_zero: "py_div_10 (JInt 0) = Inr 0"
  by (simp add: py_div_10_def float_of_int_def binary64_def pow2_def)


subsection \<open>Title case\<close>

lemma title_from_length: "length (title_from b s) = length s"
  by (induction s arbitrary: b) simp_all

lemma title_from_nth:
  "i < length s \<Longrightarrow>
     title_from b s ! i =
       (if (if i = 0 then b else is_cased (s ! (i - 1))) then to_lower (s ! i) else to_upper (s ! i))"
proof (induction s arbitrary: b i)
  case Nil
  then show ?case by simp
next
  case (Cons c cs)
  show ?case
  proof (cases i)
    case 0
    then show ?thesis by simp
  next
    case (Suc j)
    with Cons.prems have "j < length cs" by simp
    from Cons.IH [OF this, of "is_cased c"] Suc show ?thesis
      by (cases j) simp_all
  qed
qed

lemma to_upper_ascii: "is_ascii c \<Longrightarrow> is_ascii (to_upper c)"
  by (auto simp: is_ascii_def to_upper_def is_lower_def)

lemma to_lower_ascii: "is_ascii c \<Longrightarrow> is_ascii (to_lower c)"
  by (auto simp: is_ascii_def to_lower_def is_upper_def)

lemma title_from_ascii: "list_all is_ascii s \<Longrightarrow> list_all is_ascii (title_from b s)"
  by (induction s arbitrary: b) (simp_all add: to_upper_ascii to_lower_ascii)

subsection \<open>The map of the stats\<close>

lemma and_then_Inl: "and_then (Inl e) f = Inl e"
  by (simp add: and_then_def)

lemma and_then_Inr_simp: "and_then (Inr x) f = f x"
  by (simp add: and_then_def)

lemma stats_map_of_entries:
  "stats_map_of ss m =
     (case all_of stat_entry ss of Inl e \<Rightarrow> Inl e | Inr es \<Rightarrow> Inr (rev es @ m))"
proof (induction ss arbitrary: m)
  case Nil
  show ?case by simp
next
  case (Cons s ss)
  show ?case
  proof (cases "stat_entry s")
    case (Inl e)
    then show ?thesis
      by (auto simp: stat_entry_def and_then_def split: sum.splits if_splits)
  next
    case (Inr kv)
    then have "stats_map_of (s # ss) m = stats_map_of ss (kv # m)"
      by (auto simp: stat_entry_def and_then_def split: sum.splits if_splits)
    with Inr Cons.IH [of "kv # m"] show ?thesis
      by (simp add: and_then_def split: sum.splits)
  qed
qed

lemma map_of_rev_last:
  "map_of (rev es) k =
     (case filter (\<lambda>e. fst e = k) es of [] \<Rightarrow> None | e # r \<Rightarrow> Some (snd (last (e # r))))"
proof (induction es rule: rev_induct)
  case Nil
  show ?case by simp
next
  case (snoc x es)
  show ?case
  proof (cases "fst x = k")
    case True
    then show ?thesis
      by (cases x; cases "filter (\<lambda>e. fst e = k) es") simp_all
  next
    case False
    with snoc show ?thesis by (cases x) simp
  qed
qed

lemma stat_get_spec: "stat_get (rev es) nm = spec_stat es nm"
  by (simp add: stat_get_def spec_stat_def map_of_rev_last split: list.splits)

lemma read_stats_entries:
  "read_stats raw =
     and_then (stat_entries raw) (\<lambda>es.
       new_Stats (spec_stat es ''hp'') (spec_stat es ''attack'') (spec_stat es ''defense'')
         (spec_stat es ''special-attack'') (spec_stat es ''special-defense'')
         (spec_stat es ''speed''))"
proof (cases "py_get raw ''stats'' (JArr [])")
  case (Inl e)
  then show ?thesis by (simp add: read_stats_def stat_entries_def and_then_def)
next
  case src: (Inr src)
  show ?thesis
  proof (cases "py_iter src")
    case (Inl e)
    with src show ?thesis by (simp add: read_stats_def stat_entries_def and_then_def)
  next
    case ss: (Inr ss)
    show ?thesis
    proof (cases "all_of stat_entry ss")
      case (Inl e)
      with src ss show ?thesis
        by (simp add: read_stats_def stat_entries_def and_then_def stats_map_of_entries)
    next
      case (Inr es)
      with src ss stat_get_spec [of es] show ?thesis
        by (simp add: read_stats_def stat_entries_def and_then_def stats_map_of_entries)
    qed
  qed
qed

lemma new_Stats_fields:
  assumes "new_Stats h a d sa sd sp = Inr st"
  shows "h = JInt (hp st) \<and> a = JInt (attack st) \<and> d = JInt (defense st) \<and>
    sa = JInt (special_attack st) \<and> sd = JInt (special_defense st) \<and> sp = JInt (speed st)"
  using assms
  by (auto simp: new_Stats_def and_then_Inr as_int_def split: json.splits)

lemma spec_stat_absent: "JStr nm \<notin> fst ` set es \<Longrightarrow> spec_stat es nm = JInt 0"
proof -
  assume "JStr nm \<notin> fst ` set es"
  then have "filter (\<lambda>e. fst e = JStr nm) es = []"
    by (force simp: filter_empty_conv)
  then show ?thesis by (simp add: spec_stat_def)
qed

lemma spec_stat_recognized:
  assumes "recognized (JStr nm)"
  shows "spec_stat (filter (\<lambda>e. recognized (fst e)) es) nm = spec_stat es nm"
proof -
  have "filter (\<lambda>e. fst e = JStr nm) (filter (\<lambda>e. recognized (fst e)) es)
      = filter (\<lambda>e. fst e = JStr nm) es"
    using assms by (auto intro: filter_cong)
  then show ?thesis by (simp add: spec_stat_def)
qed

subsection \<open>The secondary lookups\<close>





section \<open>The claims\<close>

text \<open>
  C2. Whenever \<^verbatim>\<open>build_evolution_chain\<close> returns, no two stages of the result have the
  same id, no stage has the id 0, and the result lists, in the order of the pre-order
  traversal, exactly the stages at which an id other than 0 appears for the first time.
\<close>

theorem build_evolution_chain_first_seen:
  assumes "build_evolution_chain stage_frames room node = Inr out"
  shows "distinct (map id_stage out) \<and> 0 \<notin> id_stage ` set out \<and>
    (\<exists>stages. traverse stage_frames room node [] = Inr stages \<and>
       out = map (\<lambda>i. stages ! i) (filter (first_seen {} stages) [0..<length stages]))"
proof -
  from assms obtain stages where run: "traverse stage_frames room node [] = Inr stages"
    and out: "out = dedup_loop stages {} []"
    by (auto simp: build_evolution_chain_def split: sum.splits)
  have "distinct (map id_stage out) \<and> 0 \<notin> id_stage ` set out"
    unfolding out by (rule dedup_loop_invariant) simp_all
  moreover have "out = map (\<lambda>i. stages ! i) (filter (first_seen {} stages) [0..<length stages])"
    unfolding out by (simp add: dedup_loop_positions)
  ultimately show ?thesis using run by blast
qed

theorem build_evolution_chain_first_seen_witness:
  "build_evolution_chain 2 100 repeating_chain = Inr repeating_out \<and>
   map_sum (\<lambda>e. e) (map id_stage) (traverse 2 100 repeating_chain []) = Inr [2, 0, 2, 5] \<and>
   map id_stage repeating_out = [2, 5] \<and>
   distinct (map id_stage repeating_out) \<and> 0 \<notin> id_stage ` set repeating_out \<and>
    (\<exists>stages. traverse 2 100 repeating_chain [] = Inr stages \<and>
       repeating_out =
         map (\<lambda>i. stages ! i) (filter (first_seen {} stages) [0..<length stages]))"
proof -
  have run: "build_evolution_chain 2 100 repeating_chain = Inr repeating_out"
    by code_simp
  have all: "map_sum (\<lambda>e. e) (map id_stage) (traverse 2 100 repeating_chain []) = Inr [2, 0, 2, 5]"
    by code_simp
  have ids: "map id_stage repeating_out = [2, 5]"
    by (simp add: repeating_out_def)
  from run all ids build_evolution_chain_first_seen [OF run] show ?thesis
    by blast
qed

text \<open>
  C3. The traversal is pre-order and depth-first: the output for a node with a species
  name is the node's own stage followed by the outputs for its children, one after the
  other in the order of \<^verbatim>\<open>evolves_to\<close> (and the traversal of the node returns exactly
  when there is room for the constructor and the traversals of all its children
  return). On the specification's example, a root with id 1 whose children have the ids
  2 and 3, the first with a child of id 4, the ids of the result are 1, 2, 4, 3 in this
  order, on every interpreter with room for the three nested calls and the constructor.
\<close>

theorem traverse_preorder:
  assumes "py_get node ''species'' (JObj []) = Inr species"
    and "py_get species ''name'' JNull = Inr (JStr nm)"
    and "nm \<noteq> []"
    and "py_get species ''url'' (JStr []) = Inr url"
    and "py_get node ''evolves_to'' (JArr []) = Inr evolves_to"
    and "py_iter evolves_to = Inr children"
  shows "(traverse stage_frames (Suc room) node [] = Inr out \<longleftrightarrow>
           stage_frames \<le> room \<and>
           (\<exists>outs. list_all2 (\<lambda>child r. traverse stage_frames room child [] = Inr r)
                      children outs \<and>
              out = emitted_stage nm url # concat outs)) \<and>
         (stage_frames + 3 \<le> room' \<longrightarrow>
            map_sum (\<lambda>e. e) (map id_stage) (build_evolution_chain stage_frames room' example_chain)
              = Inr [1, 2, 4, 3])"
proof (intro conjI impI)
  have "traverse_children stage_frames room children ([] @ [emitted_stage nm url])
      = (case traverse_children stage_frames room children [] of
           Inl e \<Rightarrow> Inl e | Inr r \<Rightarrow> Inr (emitted_stage nm url # r))"
    by (subst traverse_children_acc) (simp split: sum.splits)
  with traverse_named [OF assms, of stage_frames room "[]"]
  have node: "traverse stage_frames (Suc room) node [] =
      (if stage_frames \<le> room
       then (case traverse_children stage_frames room children [] of
               Inl e \<Rightarrow> Inl e | Inr r \<Rightarrow> Inr (emitted_stage nm url # r))
       else Inl RecursionError)"
    by simp
  show "traverse stage_frames (Suc room) node [] = Inr out \<longleftrightarrow>
      stage_frames \<le> room \<and>
      (\<exists>outs. list_all2 (\<lambda>child r. traverse stage_frames room child [] = Inr r) children outs \<and>
         out = emitted_stage nm url # concat outs)"
  proof
    assume "traverse stage_frames (Suc room) node [] = Inr out"
    with node obtain r where "stage_frames \<le> room"
      and "traverse_children stage_frames room children [] = Inr r"
      and "out = emitted_stage nm url # r"
      by (auto split: sum.splits if_splits)
    then show "stage_frames \<le> room \<and>
      (\<exists>outs. list_all2 (\<lambda>child r. traverse stage_frames room child [] = Inr r) children outs \<and>
         out = emitted_stage nm url # concat outs)"
      by (auto simp: traverse_children_concat)
  next
    assume "stage_frames \<le> room \<and>
      (\<exists>outs. list_all2 (\<lambda>child r. traverse stage_frames room child [] = Inr r) children outs \<and>
         out = emitted_stage nm url # concat outs)"
    then obtain outs where frames: "stage_frames \<le> room"
      and "list_all2 (\<lambda>child r. traverse stage_frames room child [] = Inr r) children outs"
      and out: "out = emitted_stage nm url # concat outs"
      by blast
    then have "traverse_children stage_frames room children [] = Inr (concat outs)"
      by (auto simp: traverse_children_concat)
    with node out frames show "traverse stage_frames (Suc room) node [] = Inr out" by simp
  qed
next
  assume room: "stage_frames + 3 \<le> room'"
  have "traverse 0 3 example_chain [] = Inr example_stages"
    by code_simp
  then have "traverse stage_frames room' example_chain [] = Inr example_stages"
    by (rule traverse_more_room) (use room in simp_all)
  then show "map_sum (\<lambda>e. e) (map id_stage) (build_evolution_chain stage_frames room' example_chain)
      = Inr [1, 2, 4, 3]"
    by (simp add: build_evolution_chain_def example_stages_def)
qed

theorem traverse_preorder_witness:
  "traverse 2 (Suc 99) (chain_node example_species example_children) [] = Inr example_stages \<and>
   (\<exists>outs. list_all2 (\<lambda>child r. traverse 2 99 child [] = Inr r) example_children outs \<and>
      example_stages =
        emitted_stage ''a'' (JStr ''https://pokeapi.co/api/v2/pokemon-species/1/'') # concat outs) \<and>
   map_sum (\<lambda>e. e) (map id_stage) (build_evolution_chain 2 5 example_chain) = Inr [1, 2, 4, 3]"
proof -
  have run: "traverse 2 (Suc 99) (chain_node example_species example_children) []
      = Inr example_stages"
    by code_simp
  have "(traverse 2 (Suc 99) (chain_node example_species example_children) []
            = Inr example_stages \<longleftrightarrow>
           2 \<le> (99 :: nat) \<and>
           (\<exists>outs. list_all2 (\<lambda>child r. traverse 2 99 child [] = Inr r) example_children outs \<and>
              example_stages =
                emitted_stage ''a'' (JStr ''https://pokeapi.co/api/v2/pokemon-species/1/'')
                  # concat outs)) \<and>
         (2 + 3 \<le> (5 :: nat) \<longrightarrow>
            map_sum (\<lambda>e. e) (map id_stage) (build_evolution_chain 2 5 example_chain)
              = Inr [1, 2, 4, 3])"
    by (rule traverse_preorder [where species = example_species
          and evolves_to = "JArr example_children"])
      (simp_all add: chain_node_def example_species_def species_ref_def)
  with run show ?thesis by simp
qed

text \<open>
  C1, as amended. A node without a resolvable species name (a dictionary whose
  \<^verbatim>\<open>species\<close> is absent, or is a dictionary whose \<^verbatim>\<open>name\<close> is absent or falsy) is left out
  together with everything below it: where there is room for the call, the traversal
  of the node returns at once with no stage added, and its children are not visited.
  The traversal as a whole goes on: the node's later siblings are visited as if the
  node were not there.
\<close>

theorem nameless_node_prunes_subtree:
  assumes "nameless node"
  shows "traverse stage_frames (Suc room) node stages = Inr stages \<and>
    traverse_children stage_frames (Suc room) (node # rest) stages
      = traverse_children stage_frames (Suc room) rest stages"
proof -
  from assms have "traverse stage_frames (Suc room) node stages = Inr stages"
    by (rule nameless_reads) (rule traverse_nameless)
  then show ?thesis by simp
qed

theorem nameless_node_prunes_subtree_witness:
  "nameless nameless_node \<and>
   traverse 2 (Suc 99) nameless_node [] = Inr [] \<and>
   traverse_children 2 (Suc 99) [nameless_node, grandchild] []
     = traverse_children 2 (Suc 99) [grandchild] [] \<and>
   map_sum (\<lambda>e. e) (map id_stage) (traverse_children 2 (Suc 99) [nameless_node, grandchild] [])
     = Inr [3]"
proof -
  have n: "nameless nameless_node"
    by (simp add: nameless_def nameless_node_def chain_node_def)
  have "map_sum (\<lambda>e. e) (map id_stage) (traverse_children 2 (Suc 99) [nameless_node, grandchild] [])
     = Inr [3]"
    by code_simp
  with n nameless_node_prunes_subtree [OF n, of 2 99 "[]" "[grandchild]"] show ?thesis
    by simp
qed

text \<open>
  The claim as the specification words it fails: the child of a nameless node yields a
  stage when it is traversed by itself, and none below the nameless node.
\<close>

theorem nameless_node_children_not_visited:
  "map_sum (\<lambda>e. e) (map id_stage) (build_evolution_chain 2 100 nameless_chain) = Inr [1] \<and>
   map_sum (\<lambda>e. e) (map id_stage) (build_evolution_chain 2 100 grandchild) = Inr [3]"
  by code_simp




text \<open>
  C5, as amended. \<^verbatim>\<open>build_evolution_chain\<close> returns a sequence exactly for the chains that
  the traversal reads to the end (\<open>readable\<close>): there is room on the call stack for every
  call; every node visited is a dictionary whose \<^verbatim>\<open>species\<close> is absent or a dictionary;
  the name of a species, when it is truthy, is text; and the \<^verbatim>\<open>evolves_to\<close> of a node with
  a name is absent or iterable. What lies below a node without a name is not visited
  and may be anything. Whenever the root has no resolvable species name, as the empty
  dictionary has none, and there is room for one call, the sequence returned is empty.
\<close>

theorem build_evolution_chain_returns:
  "((\<exists>out. build_evolution_chain stage_frames room node = Inr out)
      \<longleftrightarrow> readable stage_frames room node) \<and>
   (nameless node \<and> 0 < room \<longrightarrow> build_evolution_chain stage_frames room node = Inr [])"
proof (intro conjI impI iffI)
  assume "\<exists>out. build_evolution_chain stage_frames room node = Inr out"
  then obtain stages where "traverse stage_frames room node [] = Inr stages"
    by (auto simp: build_evolution_chain_def split: sum.splits)
  then show "readable stage_frames room node" by (rule returns_readable)
next
  assume "readable stage_frames room node"
  then obtain stages where "traverse stage_frames room node [] = Inr stages"
    using readable_returns by blast
  then show "\<exists>out. build_evolution_chain stage_frames room node = Inr out"
    by (simp add: build_evolution_chain_def)
next
  assume "nameless node \<and> 0 < room"
  then obtain k where k: "room = Suc k" and "nameless node"
    by (cases room) simp_all
  then have "traverse stage_frames (Suc k) node [] = Inr []"
    by (elim nameless_reads) (rule traverse_nameless)
  with k show "build_evolution_chain stage_frames room node = Inr []"
    by (simp add: build_evolution_chain_def)
qed

theorem build_evolution_chain_returns_witness:
  "readable 2 100 nameless_chain \<and>
   (\<exists>out. build_evolution_chain 2 100 nameless_chain = Inr out) \<and>
   nameless (JObj []) \<and> build_evolution_chain 2 100 (JObj []) = Inr [] \<and>
   nameless nameless_node \<and> build_evolution_chain 2 100 nameless_node = Inr [] \<and>
   \<not> readable 2 100 misshapen_chain \<and> \<not> readable 2 4 example_chain"
proof -
  have run: "build_evolution_chain 2 100 nameless_chain
      = Inr [\<lparr>id_stage = 1, name_stage = ''a'', sprite_stage = Some (sprite_url 1)\<rparr>]"
    by code_simp
  have raised: "build_evolution_chain 2 100 misshapen_chain = Inl AttributeError"
    by code_simp
  have deep: "build_evolution_chain 2 4 example_chain = Inl RecursionError"
    by code_simp
  have empty: "nameless (JObj [])"
    by (simp add: nameless_def)
  have n: "nameless nameless_node"
    by (simp add: nameless_def nameless_node_def chain_node_def)
  from build_evolution_chain_returns [where stage_frames = 2 and room = 100 and node = nameless_chain] run
  have "readable 2 100 nameless_chain" by simp
  moreover from build_evolution_chain_returns [where stage_frames = 2 and room = 100 and node = misshapen_chain] raised
  have "\<not> readable 2 100 misshapen_chain" by simp
  moreover from build_evolution_chain_returns [where stage_frames = 2 and room = 4 and node = example_chain] deep
  have "\<not> readable 2 4 example_chain" by simp
  moreover from build_evolution_chain_returns [where stage_frames = 2 and room = 100 and node = "JObj []"] empty
  have "build_evolution_chain 2 100 (JObj []) = Inr []" by simp
  moreover from build_evolution_chain_returns [where stage_frames = 2 and room = 100 and node = nameless_node] n
  have "build_evolution_chain 2 100 nameless_node = Inr []" by simp
  ultimately show ?thesis using run empty n by simp
qed

text \<open>
  The claim as the specification words it fails: a root that is no dictionary, an
  \<^verbatim>\<open>evolves_to\<close> that is \<^verbatim>\<open>null\<close>, an entry of \<^verbatim>\<open>evolves_to\<close> that is no dictionary, and a
  chain that is deeper than the call stack has room for each make
  \<^verbatim>\<open>build_evolution_chain\<close> raise.
\<close>

theorem build_evolution_chain_raises:
  "build_evolution_chain 2 100 JNull = Inl AttributeError \<and>
   build_evolution_chain 2 100 childless_chain = Inl TypeError \<and>
   build_evolution_chain 2 100 misshapen_chain = Inl AttributeError \<and>
   build_evolution_chain 2 4 example_chain = Inl RecursionError"
  by code_simp

text \<open>
  C10. A raw record without the key \<^verbatim>\<open>height\<close> is normalized exactly as the same record
  with the height 0: the missing value is taken to be 0 before the division, no error
  comes of the missing key, and the height of the result is 0.0. The same holds for
  \<^verbatim>\<open>weight\<close>.
\<close>

theorem missing_height_weight_default:
  "(map_of kvs ''height'' = None \<longrightarrow>
      normalize_pokemon stage_frames room up (JObj kvs)
        = normalize_pokemon stage_frames room up (JObj ((''height'', JInt 0) # kvs))
      \<and> (\<forall>p. normalize_pokemon stage_frames room up (JObj kvs) = Inr p \<longrightarrow> height p = 0)) \<and>
   (map_of kvs ''weight'' = None \<longrightarrow>
      normalize_pokemon stage_frames room up (JObj kvs)
        = normalize_pokemon stage_frames room up (JObj ((''weight'', JInt 0) # kvs))
      \<and> (\<forall>p. normalize_pokemon stage_frames room up (JObj kvs) = Inr p \<longrightarrow> weight p = 0))"
proof (intro conjI impI allI)
  assume "map_of kvs ''height'' = None"
  then show "normalize_pokemon stage_frames room up (JObj kvs)
      = normalize_pokemon stage_frames room up (JObj ((''height'', JInt 0) # kvs))"
    by (simp add: normalize_pokemon_def read_types_def read_stats_def)
next
  fix p
  assume absent: "map_of kvs ''height'' = None"
    and "normalize_pokemon stage_frames room up (JObj kvs) = Inr p"
  then obtain hv where "py_get (JObj kvs) ''height'' (JInt 0) = Inr hv"
    and "py_div_10 hv = Inr (height p)"
    by (auto elim: normalize_pokemon_Inr)
  with absent show "height p = 0" by (auto simp: py_div_10_zero)
next
  assume "map_of kvs ''weight'' = None"
  then show "normalize_pokemon stage_frames room up (JObj kvs)
      = normalize_pokemon stage_frames room up (JObj ((''weight'', JInt 0) # kvs))"
    by (simp add: normalize_pokemon_def read_types_def read_stats_def)
next
  fix p
  assume absent: "map_of kvs ''weight'' = None"
    and "normalize_pokemon stage_frames room up (JObj kvs) = Inr p"
  then obtain wv where "py_get (JObj kvs) ''weight'' (JInt 0) = Inr wv"
    and "py_div_10 wv = Inr (weight p)"
    by (auto elim: normalize_pokemon_Inr)
  with absent show "weight p = 0" by (auto simp: py_div_10_zero)
qed

theorem missing_height_weight_default_witness:
  "map_of bare_fields ''height'' = None \<and> map_of bare_fields ''weight'' = None \<and>
   map_sum (\<lambda>e. e) height (normalize_pokemon 2 100 not_found_upstream (JObj bare_fields)) = Inr 0 \<and>
   map_sum (\<lambda>e. e) weight (normalize_pokemon 2 100 not_found_upstream (JObj bare_fields)) = Inr 0"
proof -
  have absent: "map_of bare_fields ''height'' = None" "map_of bare_fields ''weight'' = None"
    by (simp_all add: bare_fields_def)
  have "map_sum (\<lambda>e. e) id_pokemon (normalize_pokemon 2 100 not_found_upstream (JObj bare_fields))
      = Inr 1"
    by code_simp
  then obtain p where run: "normalize_pokemon 2 100 not_found_upstream (JObj bare_fields) = Inr p"
    by (cases "normalize_pokemon 2 100 not_found_upstream (JObj bare_fields)") simp_all
  from missing_height_weight_default [of bare_fields 2 100 not_found_upstream] absent run
  have "height p = 0" "weight p = 0" by blast+
  with absent run show ?thesis by simp
qed



text \<open>
  C8, as amended. The name of the result is the slug of the raw record after
  \<^verbatim>\<open>str.title()\<close>. For a slug of ASCII characters this is a text of ASCII characters of
  the same length in which every letter that does not follow a letter is upper-cased,
  every letter that follows a letter is lower-cased, and every other character is
  kept: words begin after any character that is no letter, not only after whitespace,
  and the rest of a word is lower-cased, not kept.
\<close>

theorem name_is_title_of_slug:
  assumes "normalize_pokemon stage_frames room up raw = Inr p"
    and "py_get raw ''name'' (JStr []) = Inr (JStr slug)"
    and "list_all is_ascii slug"
  shows "name_pokemon p = py_title slug \<and> list_all is_ascii (name_pokemon p) \<and>
    length (name_pokemon p) = length slug \<and>
    (\<forall>i < length slug. name_pokemon p ! i =
       (if 0 < i \<and> is_cased (slug ! (i - 1)) then to_lower (slug ! i) else to_upper (slug ! i)))"
proof -
  from assms(1) obtain nm where "py_get raw ''name'' (JStr []) = Inr nm"
    and "title_of nm = Inr (name_pokemon p)"
    by (rule normalize_pokemon_Inr)
  with assms(2) have name: "name_pokemon p = py_title slug"
    by (simp add: title_of_def)
  moreover have "list_all is_ascii (py_title slug)"
    using assms(3) by (simp add: py_title_def title_from_ascii)
  moreover have "length (py_title slug) = length slug"
    by (simp add: py_title_def title_from_length)
  moreover have "\<forall>i < length slug. py_title slug ! i =
       (if 0 < i \<and> is_cased (slug ! (i - 1)) then to_lower (slug ! i) else to_upper (slug ! i))"
    by (auto simp: py_title_def title_from_nth)
  ultimately show ?thesis by simp
qed

theorem name_is_title_of_slug_witness:
  "list_all is_ascii ''mr-mime'' \<and>
   map_sum (\<lambda>e. e) name_pokemon (normalize_pokemon 2 100 not_found_upstream mr_mime_raw)
     = Inr ''Mr-Mime'' \<and>
   py_title ''mr-mime'' = ''Mr-Mime''"
proof -
  have ascii: "list_all is_ascii ''mr-mime''"
    by code_simp
  have title: "py_title ''mr-mime'' = ''Mr-Mime''"
    by code_simp
  have "map_sum (\<lambda>e. e) id_pokemon (normalize_pokemon 2 100 not_found_upstream mr_mime_raw)
      = Inr 122"
    by code_simp
  then obtain p where run: "normalize_pokemon 2 100 not_found_upstream mr_mime_raw = Inr p"
    by (cases "normalize_pokemon 2 100 not_found_upstream mr_mime_raw") simp_all
  have "py_get mr_mime_raw ''name'' (JStr []) = Inr (JStr ''mr-mime'')"
    by (simp add: mr_mime_raw_def)
  from name_is_title_of_slug [OF run this ascii] title
  have "name_pokemon p = ''Mr-Mime''" by simp
  with run ascii title show ?thesis by simp
qed

text \<open>
  The claim as the specification words it fails: the slug \<^verbatim>\<open>mr-mime\<close> has no whitespace
  and is one word, of which the specification capitalizes the first letter only; and in
  \<^verbatim>\<open>mcDonald\<close> the specification keeps the capital in the middle of the word.
\<close>

theorem name_not_capitalized_by_whitespace_words:
  "map_sum (\<lambda>e. e) name_pokemon (normalize_pokemon 2 100 not_found_upstream mr_mime_raw)
     = Inr ''Mr-Mime'' \<and>
   spec_title ''mr-mime'' = ''Mr-mime'' \<and>
   py_title ''mcDonald'' = ''Mcdonald'' \<and> spec_title ''mcDonald'' = ''McDonald''"
  by code_simp

text \<open>
  C7. The \<^verbatim>\<open>Stats\<close> of the result are read off the pairs of name and value that the
  source list holds: each of the six fields holds the value listed under its name,
  \<^verbatim>\<open>hp\<close>, \<^verbatim>\<open>attack\<close>, \<^verbatim>\<open>defense\<close>, \<^verbatim>\<open>special-attack\<close>, \<^verbatim>\<open>special-defense\<close> and \<^verbatim>\<open>speed\<close>, and 0
  when the name is not listed (so a list without \<^verbatim>\<open>speed\<close> gives the speed 0). Entries
  with other names have no effect: two raw records whose lists agree on the entries
  with the six names have the same \<^verbatim>\<open>Stats\<close>.
\<close>

theorem stats_by_recognized_name:
  assumes "normalize_pokemon stage_frames room up raw = Inr p"
  shows "\<exists>es. stat_entries raw = Inr es \<and>
    JInt (hp (stats p)) = spec_stat es ''hp'' \<and>
    JInt (attack (stats p)) = spec_stat es ''attack'' \<and>
    JInt (defense (stats p)) = spec_stat es ''defense'' \<and>
    JInt (special_attack (stats p)) = spec_stat es ''special-attack'' \<and>
    JInt (special_defense (stats p)) = spec_stat es ''special-defense'' \<and>
    JInt (speed (stats p)) = spec_stat es ''speed'' \<and>
    (JStr ''speed'' \<notin> fst ` set es \<longrightarrow> speed (stats p) = 0) \<and>
    (\<forall>stage_frames' room' up' raw' es' p'.
       normalize_pokemon stage_frames' room' up' raw' = Inr p' \<and>
       stat_entries raw' = Inr es' \<and>
       filter (\<lambda>e. recognized (fst e)) es' = filter (\<lambda>e. recognized (fst e)) es
       \<longrightarrow> stats p' = stats p)"
proof -
  have fields: "\<exists>es. stat_entries raw = Inr es \<and>
      JInt (hp (stats p)) = spec_stat es ''hp'' \<and>
      JInt (attack (stats p)) = spec_stat es ''attack'' \<and>
      JInt (defense (stats p)) = spec_stat es ''defense'' \<and>
      JInt (special_attack (stats p)) = spec_stat es ''special-attack'' \<and>
      JInt (special_defense (stats p)) = spec_stat es ''special-defense'' \<and>
      JInt (speed (stats p)) = spec_stat es ''speed''"
    if "normalize_pokemon stage_frames room up raw = Inr p" for stage_frames room up raw p
  proof -
    from that have "read_stats raw = Inr (stats p)"
      by (rule normalize_pokemon_Inr)
    then obtain es where es: "stat_entries raw = Inr es"
      and "new_Stats (spec_stat es ''hp'') (spec_stat es ''attack'') (spec_stat es ''defense'')
         (spec_stat es ''special-attack'') (spec_stat es ''special-defense'')
         (spec_stat es ''speed'') = Inr (stats p)"
      unfolding read_stats_entries and_then_Inr by blast
    from new_Stats_fields [OF this(2)] es show ?thesis by simp
  qed
  from fields [OF assms] obtain es where es: "stat_entries raw = Inr es"
    and here: "JInt (hp (stats p)) = spec_stat es ''hp''"
      "JInt (attack (stats p)) = spec_stat es ''attack''"
      "JInt (defense (stats p)) = spec_stat es ''defense''"
      "JInt (special_attack (stats p)) = spec_stat es ''special-attack''"
      "JInt (special_defense (stats p)) = spec_stat es ''special-defense''"
      "JInt (speed (stats p)) = spec_stat es ''speed''"
    by blast
  have absent: "speed (stats p) = 0" if "JStr ''speed'' \<notin> fst ` set es"
    using here(6) spec_stat_absent [OF that] by simp
  have same: "stats p' = stats p"
    if run: "normalize_pokemon stage_frames' room' up' raw' = Inr p'"
      and es': "stat_entries raw' = Inr es'"
      and agree: "filter (\<lambda>e. recognized (fst e)) es' = filter (\<lambda>e. recognized (fst e)) es"
    for stage_frames' room' up' raw' es' p'
  proof -
    from fields [OF run] es' have there: "JInt (hp (stats p')) = spec_stat es' ''hp''"
      "JInt (attack (stats p')) = spec_stat es' ''attack''"
      "JInt (defense (stats p')) = spec_stat es' ''defense''"
      "JInt (special_attack (stats p')) = spec_stat es' ''special-attack''"
      "JInt (special_defense (stats p')) = spec_stat es' ''special-defense''"
      "JInt (speed (stats p')) = spec_stat es' ''speed''"
      by simp_all
    have "spec_stat es' nm = spec_stat es nm" if "recognized (JStr nm)" for nm
      using spec_stat_recognized [OF that, of es] spec_stat_recognized [OF that, of es'] agree
      by simp
    then have "spec_stat es' ''hp'' = spec_stat es ''hp''"
      "spec_stat es' ''attack'' = spec_stat es ''attack''"
      "spec_stat es' ''defense'' = spec_stat es ''defense''"
      "spec_stat es' ''special-attack'' = spec_stat es ''special-attack''"
      "spec_stat es' ''special-defense'' = spec_stat es ''special-defense''"
      "spec_stat es' ''speed'' = spec_stat es ''speed''"
      by (simp_all add: recognized_def)
    with here there have "JInt (hp (stats p')) = JInt (hp (stats p))"
      "JInt (attack (stats p')) = JInt (attack (stats p))"
      "JInt (defense (stats p')) = JInt (defense (stats p))"
      "JInt (special_attack (stats p')) = JInt (special_attack (stats p))"
      "JInt (special_defense (stats p')) = JInt (special_defense (stats p))"
      "JInt (speed (stats p')) = JInt (speed (stats p))"
      by simp_all
    then show ?thesis
      by (cases "stats p"; cases "stats p'") simp
  qed
  from es here absent same show ?thesis by blast
qed

theorem stats_by_recognized_name_witness:
  "map_sum (\<lambda>e. e) stats (normalize_pokemon 2 100 not_found_upstream mr_mime_raw)
     = Inr \<lparr>hp = 40, attack = 45, defense = 65, special_attack = 0, special_defense = 0,
            speed = 0\<rparr> \<and>
   stat_entries mr_mime_raw
     = Inr [(JStr ''hp'', JInt 40), (JStr ''attack'', JInt 45), (JStr ''accuracy'', JInt 3),
            (JStr ''defense'', JInt 65)]"
proof -
  have entries: "stat_entries mr_mime_raw
     = Inr [(JStr ''hp'', JInt 40), (JStr ''attack'', JInt 45), (JStr ''accuracy'', JInt 3),
            (JStr ''defense'', JInt 65)]"
    by code_simp
  have "map_sum (\<lambda>e. e) id_pokemon (normalize_pokemon 2 100 not_found_upstream mr_mime_raw)
      = Inr 122"
    by code_simp
  then obtain p where run: "normalize_pokemon 2 100 not_found_upstream mr_mime_raw = Inr p"
    by (cases "normalize_pokemon 2 100 not_found_upstream mr_mime_raw") simp_all
  from stats_by_recognized_name [OF run] entries
  have "hp (stats p) = 40 \<and> attack (stats p) = 45 \<and> defense (stats p) = 65 \<and>
      special_attack (stats p) = 0 \<and> special_defense (stats p) = 0 \<and> speed (stats p) = 0"
    by (auto simp: spec_stat_def)
  then have "stats p = \<lparr>hp = 40, attack = 45, defense = 65, special_attack = 0,
      special_defense = 0, speed = 0\<rparr>"
    by (cases "stats p") simp
  with run entries show ?thesis by simp
qed




end
